theory Spec2Isabelle
  imports Main
begin

section \<open>The snake engine of src/index.tsx\<close>

text \<open>
  The program is one TypeScript module: a few module-level variables, the pure helpers
  \<open>constrainToCanvas\<close>, \<open>nextCoords\<close> and \<open>passed\<close>, and three callbacks
  (\<open>draw\<close>, \<open>gameLoop\<close>, \<open>handleKeyEvents\<close>) that the browser runs one at a
  time. The module-level variables become the record \<open>state\<close>; every callback takes
  the state and returns the state it leaves behind, together with the exception it threw,
  if any. All coordinates of the program are integers (\<open>clientWidth\<close>,
  \<open>clientHeight\<close>, \<open>Math.floor\<close>, \<open>Math.round\<close>, sums and differences of
  those), so JavaScript numbers are modelled as \<open>int\<close>.
\<close>

subsection \<open>Directions, coordinates, instructions\<close>

datatype Direction = Up | Right | Down | Left

fun Transforms :: "Direction \<Rightarrow> int \<times> int" where
  "Transforms Up = (0, 1)"
| "Transforms Right = (1, 0)"
| "Transforms Down = (0, -1)"
| "Transforms Left = (-1, 0)"

type_synonym ID = string
type_synonym Coord = "int \<times> int"

text \<open>
  \<open>type Instruction = [Direction, Coord]\<close>. The type is not checked at run time:
  \<open>handleKeyEvents\<close> stores whatever \<open>toCoord\<close> returned, which is
  \<open>undefined\<close> when no square exists yet. \<open>None\<close> is that \<open>undefined\<close>.
\<close>

type_synonym Instruction = "Direction \<times> Coord option"

datatype error = TypeError

subsection \<open>Square ids: \<open>toId\<close> and \<open>toCoord\<close>\<close>

definition DELIMITER :: char where
  "DELIMITER = CHR '',''"

definition digit :: "nat \<Rightarrow> char" where
  "digit d = char_of (48 + d)"

text \<open>\<open>Array.prototype.join\<close> writes each number in decimal, a minus sign first when it is negative.\<close>

function ToString_nat :: "nat \<Rightarrow> string" where
  "ToString_nat n = (if n < 10 then [digit n] else ToString_nat (n div 10) @ [digit (n mod 10)])"
  by pat_completeness auto
termination
  by (relation "measure id") auto

declare ToString_nat.simps [simp del]

definition ToString :: "int \<Rightarrow> string" where
  "ToString i = (if i < 0 then CHR ''-'' # ToString_nat (nat (- i)) else ToString_nat (nat i))"

definition toId :: "Coord \<Rightarrow> ID" where
  "toId coord = ToString (fst coord) @ DELIMITER # ToString (snd coord)"

text \<open>\<open>String.prototype.split\<close> at a one-character separator: the pieces between its occurrences.\<close>

fun String_split :: "string \<Rightarrow> char \<Rightarrow> string list" where
  "String_split [] d = [[]]"
| "String_split (c # cs) d =
     (if c = d then [] # String_split cs d
      else (case String_split cs d of p # ps \<Rightarrow> (c # p) # ps | [] \<Rightarrow> [[c]]))"

definition digits_value :: "string \<Rightarrow> nat" where
  "digits_value s = foldl (\<lambda>acc c. 10 * acc + (of_char c - 48)) 0 s"

text \<open>
  \<open>Number\<close> on the strings the program converts: decimal integer literals with an
  optional minus sign. The program converts no other string (every id comes from
  \<open>toId\<close>), so what JavaScript makes of other strings (\<open>NaN\<close>, hexadecimal,
  exponents) is left out of the model.
\<close>

definition Number :: "string \<Rightarrow> int" where
  "Number s =
     (if s \<noteq> [] \<and> hd s = CHR ''-'' then - int (digits_value (tl s)) else int (digits_value s))"

text \<open>
  \<open>toCoord = (id?: ID) => id?.split(DELIMITER).map(Number) as Coord\<close>: \<open>undefined\<close>
  for a missing id. Callers destructure the result as \<open>[x, y]\<close>, so only the first two
  numbers count; an id with fewer than two parts is never produced by \<open>toId\<close>.
\<close>

fun toCoord :: "ID option \<Rightarrow> Coord option" where
  "toCoord None = None"
| "toCoord (Some s) =
     (case map Number (String_split s DELIMITER) of
        x # y # _ \<Rightarrow> Some (x, y)
      | _ \<Rightarrow> None)"

subsection \<open>The canvas and the grid\<close>

text \<open>
  \<open>width\<close> and \<open>height\<close> are the canvas element's \<open>clientWidth\<close> and
  \<open>clientHeight\<close>, non-negative integers that the browser supplies.
\<close>

record canvas =
  clientWidth :: nat
  clientHeight :: nat

definition width :: "canvas \<Rightarrow> int" where
  "width cv = int (clientWidth cv)"

definition height :: "canvas \<Rightarrow> int" where
  "height cv = int (clientHeight cv)"

definition smaller :: "canvas \<Rightarrow> int" where
  "smaller cv = min (width cv) (height cv)"

text \<open>\<open>rect = { size: Math.floor(smaller / 10), spacing: 1 }\<close>\<close>

definition rect_size :: "canvas \<Rightarrow> int" where
  "rect_size cv = smaller cv div 10"

definition rect_spacing :: int where
  "rect_spacing = 1"

definition rectSize :: "canvas \<Rightarrow> int" where
  "rectSize cv = rect_size cv + rect_spacing"

definition constrainToCanvas :: "canvas \<Rightarrow> Coord \<Rightarrow> Coord" where
  "constrainToCanvas cv coord =
     (let x = fst coord; y = snd coord;
          constrainedX = x;
          constrainedY = y;
          rightEdge = width cv - rectSize cv;
          leftEdge = 0;
          topEdge = 0;
          bottomEdge = height cv - rectSize cv;
          constrainedX = (if x < leftEdge then rightEdge else constrainedX);
          constrainedX = (if x > rightEdge then leftEdge else constrainedX);
          constrainedY = (if y < topEdge then bottomEdge else constrainedY);
          constrainedY = (if y > bottomEdge then topEdge else constrainedY)
      in (constrainedX, constrainedY))"

text \<open>
  \<open>nextCoords = ([direction, [x, y] = head]: Instruction)\<close>: the default applies when
  the coordinate is \<open>undefined\<close>; \<open>head0\<close> is the module-level \<open>head\<close>, the start
  position.
\<close>

definition nextCoords :: "canvas \<Rightarrow> Coord \<Rightarrow> Instruction \<Rightarrow> Coord" where
  "nextCoords cv head0 ins =
     (let direction = fst ins;
          (x, y) = (case snd ins of None \<Rightarrow> head0 | Some c \<Rightarrow> c);
          (tx, ty) = Transforms direction
      in constrainToCanvas cv (x + tx * rectSize cv, y + ty * rectSize cv))"

text \<open>
  \<open>passed([x, y] = [null, null], [direction, [instructionX, instructionY]])\<close>. A
  missing segment becomes \<open>[null, null]\<close>, and \<open>null\<close> compares as the number 0.
  Destructuring an instruction whose coordinate is \<open>undefined\<close> throws a TypeError
  before the body runs.
\<close>

definition passed :: "Coord option \<Rightarrow> Instruction \<Rightarrow> error + bool" where
  "passed segment ins =
     (let (x, y) = (case segment of None \<Rightarrow> (0, 0) | Some c \<Rightarrow> c);
          direction = fst ins
      in case snd ins of
           None \<Rightarrow> Inl TypeError
         | Some (instructionX, instructionY) \<Rightarrow>
             Inr (case direction of
                    Up \<Rightarrow> y > instructionY
                  | Right \<Rightarrow> x > instructionX
                  | Down \<Rightarrow> y < instructionY
                  | Left \<Rightarrow> x < instructionX))"

subsection \<open>Module state and the browser's pending callbacks\<close>

text \<open>
  The module-level variables, and what the browser holds for the module: the handles of
  the \<open>requestAnimationFrame(draw)\<close> and \<open>setTimeout(gameLoop, GAME_LOOP_MS)\<close>
  calls that have neither run nor been cancelled, and the next fresh handle. Painting
  (\<open>ctx.clearRect\<close>, \<open>ctx.fillRect\<close>, \<open>ctx.fillText\<close>) reads the state and
  writes only to the canvas bitmap, which nothing reads back; it is not part of the state.
\<close>

record state =
  playing :: bool
  animationId :: "nat option"
  gameLoopId :: "nat option"
  segments :: nat
  head :: Coord
  instructions :: "Instruction list"
  prevSquares :: "ID list option"
  nextSquares :: "ID list option"
  frames :: "nat list"
  timeouts :: "nat list"
  fresh :: nat

text \<open>
  \<open>head = [Math.round(width / 2), Math.round(height / 2)]\<close>; \<open>Math.round\<close> takes a
  half upwards.
\<close>

definition init :: "canvas \<Rightarrow> state" where
  "init cv =
     (let head0 = ((width cv + 1) div 2, (height cv + 1) div 2)
      in \<lparr> playing = False, animationId = None, gameLoopId = None,
           segments = 5, head = head0, instructions = [(Right, Some head0)],
           prevSquares = None, nextSquares = None,
           frames = [], timeouts = [], fresh = 0 \<rparr>)"

text \<open>
  The program passes \<open>draw\<close> to every \<open>requestAnimationFrame\<close> and \<open>gameLoop\<close> to
  every \<open>setTimeout\<close>, so a pending call is its handle. Both return the new handle;
  \<open>cancelAnimationFrame\<close> and \<open>clearTimeout\<close> drop a handle that is pending and do
  nothing otherwise (also for \<open>undefined\<close>, the value of \<open>animationId\<close> and
  \<open>gameLoopId\<close> before their first assignment).
\<close>

definition requestAnimationFrame :: "state \<Rightarrow> nat \<times> state" where
  "requestAnimationFrame st =
     (fresh st, st\<lparr>frames := frames st @ [fresh st], fresh := Suc (fresh st)\<rparr>)"

definition cancelAnimationFrame :: "nat option \<Rightarrow> state \<Rightarrow> state" where
  "cancelAnimationFrame h st =
     (case h of None \<Rightarrow> st | Some i \<Rightarrow> st\<lparr>frames := removeAll i (frames st)\<rparr>)"

definition setTimeout :: "state \<Rightarrow> nat \<times> state" where
  "setTimeout st =
     (fresh st, st\<lparr>timeouts := timeouts st @ [fresh st], fresh := Suc (fresh st)\<rparr>)"

definition clearTimeout :: "nat option \<Rightarrow> state \<Rightarrow> state" where
  "clearTimeout h st =
     (case h of None \<Rightarrow> st | Some i \<Rightarrow> st\<lparr>timeouts := removeAll i (timeouts st)\<rparr>)"

subsection \<open>\<open>draw\<close>\<close>

definition draw :: "state \<Rightarrow> state" where
  "draw st =
     (let st = (case nextSquares st of
                  Some next \<Rightarrow> st\<lparr>prevSquares := Some next, nextSquares := None\<rparr>
                | None \<Rightarrow> st)
      in if playing st
         then (let (h, st) = requestAnimationFrame st in st\<lparr>animationId := Some h\<rparr>)
         else cancelAnimationFrame (animationId st) st)"

subsection \<open>\<open>gameLoop\<close>\<close>

text \<open>\<open>xs[i]\<close> on a JavaScript array: \<open>undefined\<close> outside the array, also for \<open>i = -1\<close>.\<close>

definition at_index :: "'a list \<Rightarrow> int \<Rightarrow> 'a option" where
  "at_index xs i = (if 0 \<le> i \<and> i < int (length xs) then Some (xs ! nat i) else None)"

text \<open>
  The first tick: \<open>[...new Array(segments)].fill(null).reduce(f, [head])\<close> calls
  \<open>f(next, null, i)\<close> for \<open>i = 0, ..., segments - 1\<close>. A coordinate pair is an
  array and so never falsy: \<open>!prev\<close> holds exactly when \<open>next[i - 1]\<close> is
  \<open>undefined\<close>.
\<close>

definition extend :: "canvas \<Rightarrow> Coord \<Rightarrow> Coord list \<Rightarrow> nat \<Rightarrow> Coord list" where
  "extend cv head0 next i =
     (let prev = at_index next (int i - 1)
      in if prev = None then next
         else next @ [nextCoords cv head0 (Left, prev)])"

definition initialSquares :: "canvas \<Rightarrow> state \<Rightarrow> ID list" where
  "initialSquares cv st =
     map toId (foldl (extend cv (head st)) [head st] [0..<segments st])"

text \<open>
  \<open>instructions.find((it) => !passed(segment, it))\<close>. An instruction is an array
  object, and the set \<open>appliedInstructions\<close> holds such objects by identity. The
  queue is not changed while the segments are visited, and its entries are distinct
  objects (each is created by its own array literal), so an object of the queue is
  identified by its position there: \<open>find\<close> returns the position of the element it
  found, from position \<open>i\<close> on.
\<close>

fun find_not_passed :: "Coord option \<Rightarrow> Instruction list \<Rightarrow> nat \<Rightarrow> error + nat option" where
  "find_not_passed segment [] i = Inr None"
| "find_not_passed segment (it # its) i =
     (case passed segment it of
        Inl e \<Rightarrow> Inl e
      | Inr True \<Rightarrow> find_not_passed segment its (Suc i)
      | Inr False \<Rightarrow> Inr (Some i))"

text \<open>
  \<open>instructions.find(...) || instructions[0]\<close>: \<open>undefined\<close> (\<open>None\<close>) only when
  the queue is empty.
\<close>

definition selectInstruction :: "Coord option \<Rightarrow> Instruction list \<Rightarrow> error + nat option" where
  "selectInstruction segment its =
     (case find_not_passed segment its 0 of
        Inl e \<Rightarrow> Inl e
      | Inr (Some i) \<Rightarrow> Inr (Some i)
      | Inr None \<Rightarrow> Inr (if its = [] then None else Some 0))"

text \<open>
  The \<open>for\<close> loop over the segments, from \<open>segmentIdx\<close> on. It returns the
  exception that ended it (if one did), the positions added to
  \<open>appliedInstructions\<close> and the ids pushed to \<open>nextSquares\<close> so far.
  \<open>const [direction] = instruction\<close> throws when the instruction is \<open>undefined\<close>.
\<close>

function moveSegments ::
  "canvas \<Rightarrow> state \<Rightarrow> nat \<Rightarrow> nat set \<Rightarrow> ID list \<Rightarrow> error option \<times> nat set \<times> ID list" where
  "moveSegments cv st segmentIdx appliedInstructions next =
     (if segmentIdx < segments st then
        (let segmentId = (case prevSquares st of
                            None \<Rightarrow> None
                          | Some prev \<Rightarrow> at_index prev (int segmentIdx));
             segment = toCoord segmentId
         in case selectInstruction segment (instructions st) of
              Inl e \<Rightarrow> (Some e, appliedInstructions, next)
            | Inr None \<Rightarrow> (Some TypeError, appliedInstructions, next)
            | Inr (Some i) \<Rightarrow>
                (let direction = fst (instructions st ! i);
                     nextCoord = nextCoords cv (head st) (direction, segment)
                 in moveSegments cv st (Suc segmentIdx)
                      (insert i appliedInstructions) (next @ [toId nextCoord])))
      else (None, appliedInstructions, next))"
  by pat_completeness auto
termination
  by (relation "measure (\<lambda>(cv, st, segmentIdx, a, n). segments st - segmentIdx)") auto

declare moveSegments.simps [simp del]

text \<open>
  \<open>instructions.forEach(function removeUnusedInstructions(instruction, i) {...})\<close>.
  \<open>forEach\<close> reads the length once (\<open>len\<close>), then visits the indices
  \<open>k = 0, ..., len - 1\<close> that the array still has when their turn comes;
  \<open>splice(i, 1)\<close> removes the element at \<open>i\<close> and moves the later ones down. Each
  entry carries the position it had when the tick began, which is what
  \<open>appliedInstructions.has\<close> asks for.
\<close>

function removeUnusedInstructions ::
  "nat set \<Rightarrow> nat \<Rightarrow> nat \<Rightarrow> (nat \<times> Instruction) list \<Rightarrow> (nat \<times> Instruction) list" where
  "removeUnusedInstructions appliedInstructions len k its =
     (if k < len then
        (if k < length its then
           (if fst (its ! k) \<in> appliedInstructions
            then removeUnusedInstructions appliedInstructions len (Suc k) its
            else if k = 0
            then removeUnusedInstructions appliedInstructions len (Suc k) its
            else removeUnusedInstructions appliedInstructions len (Suc k)
                   (take k its @ drop (Suc k) its))
         else removeUnusedInstructions appliedInstructions len (Suc k) its)
      else its)"
  by pat_completeness auto
termination
  by (relation "measure (\<lambda>(a, len, k, its). len - k)") auto

declare removeUnusedInstructions.simps [simp del]

definition prune :: "nat set \<Rightarrow> Instruction list \<Rightarrow> Instruction list" where
  "prune appliedInstructions its =
     map snd (removeUnusedInstructions appliedInstructions (length its) 0
                (zip [0..<length its] its))"

text \<open>
  \<open>gameLoop\<close> returns the state it leaves and the exception it threw, if any. When the
  loop over the segments throws, \<open>nextSquares\<close> holds the ids pushed so far, the queue
  is not pruned and nothing is scheduled.
\<close>

definition gameLoop :: "canvas \<Rightarrow> state \<Rightarrow> state \<times> error option" where
  "gameLoop cv st =
     (let (st, thrown) =
        (if prevSquares st = None \<and> nextSquares st = None
         then (st\<lparr>nextSquares := Some (initialSquares cv st)\<rparr>, None)
         else (case moveSegments cv st 0 {} [] of
                 (Some e, appliedInstructions, next) \<Rightarrow> (st\<lparr>nextSquares := Some next\<rparr>, Some e)
               | (None, appliedInstructions, next) \<Rightarrow>
                   (st\<lparr>nextSquares := Some next,
                       instructions := prune appliedInstructions (instructions st)\<rparr>, None)))
      in case thrown of
           Some e \<Rightarrow> (st, Some e)
         | None \<Rightarrow>
             if playing st
             then (let (h, st) = setTimeout st in (st\<lparr>gameLoopId := Some h\<rparr>, None))
             else (clearTimeout (gameLoopId st) st, None))"

subsection \<open>\<open>handleKeyEvents\<close>\<close>

text \<open>
  The argument is \<open>e.key\<close>. \<open>(nextSquares || prevSquares)?.[0]\<close>: an array is never
  falsy, so \<open>nextSquares\<close> is taken whenever it is not \<open>null\<close>. The handler's
  local \<open>head\<close>, which shadows the module-level one, is \<open>head'\<close> here.
\<close>

definition squares :: "state \<Rightarrow> ID list option" where
  "squares st = (case nextSquares st of Some next \<Rightarrow> Some next | None \<Rightarrow> prevSquares st)"

definition push :: "Instruction \<Rightarrow> state \<Rightarrow> state" where
  "push ins st = st\<lparr>instructions := instructions st @ [ins]\<rparr>"

definition handleKeyEvents :: "canvas \<Rightarrow> state \<Rightarrow> string \<Rightarrow> state \<times> error option" where
  "handleKeyEvents cv st key =
     (if key = ''Enter'' \<and> \<not> playing st
      then gameLoop cv (draw (st\<lparr>playing := True\<rparr>))
      else
        (let head' = toCoord (case squares st of None \<Rightarrow> None | Some sq \<Rightarrow> at_index sq 0);
             st = (if key = ''ArrowUp'' then push (Up, head') st else st);
             st = (if key = ''ArrowRight'' then push (Right, head') st else st);
             st = (if key = ''ArrowDown'' then push (Down, head') st else st);
             st = (if key = ''ArrowLeft'' then push (Left, head') st else st);
             st = (if key = ''Escape'' then st\<lparr>playing := False\<rparr> else st)
         in (st, None)))"

subsection \<open>The browser's event loop\<close>

text \<open>
  The browser runs one callback at a time: the \<open>keydown\<close> listener, a pending timeout
  (which runs \<open>gameLoop\<close>) or a pending animation frame (which runs \<open>draw\<close>). A
  handle that is not pending runs nothing. An exception that leaves a callback ends that
  callback only; the state stays as the callback left it.
\<close>

datatype event = keydown string | timeout nat | animationFrame nat

definition dispatch :: "canvas \<Rightarrow> event \<Rightarrow> state \<Rightarrow> state \<times> error option" where
  "dispatch cv ev st =
     (case ev of
        keydown key \<Rightarrow> handleKeyEvents cv st key
      | timeout h \<Rightarrow>
          if h \<in> set (timeouts st)
          then gameLoop cv (st\<lparr>timeouts := removeAll h (timeouts st)\<rparr>)
          else (st, None)
      | animationFrame h \<Rightarrow>
          if h \<in> set (frames st)
          then (draw (st\<lparr>frames := removeAll h (frames st)\<rparr>), None)
          else (st, None))"

fun run :: "canvas \<Rightarrow> event list \<Rightarrow> state \<Rightarrow> state" where
  "run cv [] st = st"
| "run cv (ev # evs) st = run cv evs (fst (dispatch cv ev st))"

inductive reachable :: "canvas \<Rightarrow> state \<Rightarrow> bool" for cv :: canvas where
  start: "reachable cv (init cv)"
| step: "reachable cv st \<Longrightarrow> reachable cv (fst (dispatch cv ev st))"

subsection \<open>The specification's vocabulary\<close>

text \<open>
  \<open>hasPassed\<close> is written from the specification's sentence, not from the code: for Up,
  true when the segment's y is greater than the turn's issuedAt y; Right: the segment's x
  is greater; Down: the segment's y is less; Left: the segment's x is less. A turn command
  of the specification is a direction with the cell it was issued at; \<open>queued\<close> is the
  queue entry the program holds for it.
\<close>

definition hasPassed :: "Coord \<Rightarrow> Direction \<times> Coord \<Rightarrow> bool" where
  "hasPassed segmentCell turn =
     (case fst turn of
        Up \<Rightarrow> snd segmentCell > snd (snd turn)
      | Right \<Rightarrow> fst segmentCell > fst (snd turn)
      | Down \<Rightarrow> snd segmentCell < snd (snd turn)
      | Left \<Rightarrow> fst segmentCell < fst (snd turn))"

definition queued :: "Direction \<times> Coord \<Rightarrow> Instruction" where
  "queued turn = (fst turn, Some (snd turn))"

text \<open>The cells of a body: the coordinates its ids stand for.\<close>

definition cells :: "ID list \<Rightarrow> Coord option list" where
  "cells ids = map (\<lambda>s. toCoord (Some s)) ids"

text \<open>
  The specification's \<open>step(cell, direction)\<close> is \<open>nextCoords\<close> on a cell that is
  present (the default \<open>head\<close> is then not looked at), and its \<open>edge\<close> is the
  playfield's extent on the direction's axis. A cell is in the playfield when
  \<open>constrainToCanvas\<close> leaves it where it is. \<open>constrainToCanvas\<close> re-enters at
  coordinate 0 after an overshoot and at \<open>edge - rectSize\<close> after an undershoot; a cell
  is on the track of a direction when its coordinate on that axis is a whole number of
  strides away from the re-entry coordinate.
\<close>

definition step :: "canvas \<Rightarrow> Direction \<Rightarrow> Coord \<Rightarrow> Coord" where
  "step cv d cell = nextCoords cv cell (d, Some cell)"

definition edge :: "canvas \<Rightarrow> Direction \<Rightarrow> int" where
  "edge cv d = (case d of Up \<Rightarrow> height cv | Right \<Rightarrow> width cv | Down \<Rightarrow> height cv | Left \<Rightarrow> width cv)"

definition inPlayfield :: "canvas \<Rightarrow> Coord \<Rightarrow> bool" where
  "inPlayfield cv cell =
     (0 \<le> fst cell \<and> fst cell \<le> width cv - rectSize cv
      \<and> 0 \<le> snd cell \<and> snd cell \<le> height cv - rectSize cv)"

definition onTrack :: "canvas \<Rightarrow> Direction \<Rightarrow> Coord \<Rightarrow> bool" where
  "onTrack cv d cell =
     (case d of
        Up \<Rightarrow> rectSize cv dvd snd cell
      | Right \<Rightarrow> rectSize cv dvd fst cell
      | Down \<Rightarrow> rectSize cv dvd height cv - snd cell
      | Left \<Rightarrow> rectSize cv dvd width cv - fst cell)"

text \<open>
  Auxiliary, for the proofs: what one step does to the coordinate on the axis of travel,
  an axis of extent \<open>E\<close> walked with stride \<open>r\<close>, upwards and downwards.
\<close>

definition forward :: "int \<Rightarrow> int \<Rightarrow> int \<Rightarrow> int" where
  "forward E r x = (if x + r > E - r then 0 else x + r)"

definition backward :: "int \<Rightarrow> int \<Rightarrow> int \<Rightarrow> int" where
  "backward E r x = (if x - r < 0 then E - r else x - r)"

section \<open>Properties\<close>

subsection \<open>Geometry\<close>

lemma rectSize_pos: "0 < rectSize cv"
  by (simp add: rectSize_def rect_size_def rect_spacing_def smaller_def width_def height_def)

lemma rectSize_le_width: "0 < clientWidth cv \<Longrightarrow> rectSize cv \<le> width cv"
  by (simp add: rectSize_def rect_size_def rect_spacing_def smaller_def width_def height_def)

lemma rectSize_le_height: "0 < clientHeight cv \<Longrightarrow> rectSize cv \<le> height cv"
  by (simp add: rectSize_def rect_size_def rect_spacing_def smaller_def width_def height_def)

lemma constrainToCanvas_eq:
  "constrainToCanvas cv (x, y) =
     (if x > width cv - rectSize cv then 0 else if x < 0 then width cv - rectSize cv else x,
      if y > height cv - rectSize cv then 0 else if y < 0 then height cv - rectSize cv else y)"
  by (simp add: constrainToCanvas_def Let_def)

text \<open>
  C2. For every raw cell, \<open>constrainToCanvas\<close> (the specification's wrap) replaces x by
  \<open>width - rectSize\<close> when x is negative, by 0 when x exceeds \<open>width - rectSize\<close>,
  and leaves it unchanged otherwise, and treats y likewise with the height, each axis on
  its own; the result lies in \<open>[0, width)\<close> and \<open>[0, height)\<close>. The function is total:
  there is no error case. The playfield is not empty (on a canvas of width 0 the interval
  \<open>[0, width)\<close> has no member).
\<close>

theorem constrainToCanvas_wraps_into_playfield:
  assumes "0 < clientWidth cv" and "0 < clientHeight cv"
  shows "constrainToCanvas cv (x, y) =
           (if x < 0 then width cv - rectSize cv
            else if x > width cv - rectSize cv then 0 else x,
            if y < 0 then height cv - rectSize cv
            else if y > height cv - rectSize cv then 0 else y)
         \<and> 0 \<le> fst (constrainToCanvas cv (x, y))
         \<and> fst (constrainToCanvas cv (x, y)) < width cv
         \<and> 0 \<le> snd (constrainToCanvas cv (x, y))
         \<and> snd (constrainToCanvas cv (x, y)) < height cv"
  using rectSize_pos [of cv] rectSize_le_width [OF assms(1)] rectSize_le_height [OF assms(2)]
  by (auto simp: constrainToCanvas_eq)

theorem constrainToCanvas_wraps_into_playfield_witness:
  "constrainToCanvas \<lparr>clientWidth = 100, clientHeight = 60\<rparr> (-7, 61) = (93, 0)
   \<and> constrainToCanvas \<lparr>clientWidth = 100, clientHeight = 60\<rparr> (94, 20) = (0, 20)"
  using constrainToCanvas_wraps_into_playfield [of "\<lparr>clientWidth = 100, clientHeight = 60\<rparr>" "-7" 61]
    constrainToCanvas_wraps_into_playfield [of "\<lparr>clientWidth = 100, clientHeight = 60\<rparr>" 94 20]
  by (simp add: width_def height_def rectSize_def rect_size_def rect_spacing_def smaller_def)

text \<open>
  C3. For every cell and direction, \<open>nextCoords\<close> (the specification's step) is
  \<open>constrainToCanvas\<close> applied to the cell plus the direction's unit vector times
  \<open>rectSize\<close>, the unit vectors being Up = (0, 1), Right = (1, 0), Down = (0, -1),
  Left = (-1, 0). \<open>nextCoords\<close> returns a coordinate and nothing else: it reads the
  canvas size and changes no state.
\<close>

theorem nextCoords_is_wrapped_unit_step:
  "nextCoords cv h (d, Some (x, y)) =
     constrainToCanvas cv (x + fst (Transforms d) * rectSize cv, y + snd (Transforms d) * rectSize cv)
   \<and> Transforms Up = (0, 1) \<and> Transforms Right = (1, 0)
   \<and> Transforms Down = (0, -1) \<and> Transforms Left = (-1, 0)"
  by (cases d) (simp_all add: nextCoords_def)

subsection \<open>Selecting the instruction of a segment\<close>

lemma passed_queued: "passed (Some c) (queued t) = Inr (hasPassed c t)"
  by (cases c; cases t) (simp add: passed_def queued_def hasPassed_def split: Direction.splits)

lemma find_not_passed_total:
  "\<exists>r. find_not_passed (Some c) (map queued ts) k = Inr r"
  by (induction ts arbitrary: k) (simp_all add: passed_queued split: bool.splits)

lemma find_not_passed_Some:
  "find_not_passed (Some c) (map queued ts) k = Inr (Some n) \<Longrightarrow>
   \<exists>i<length ts. n = k + i \<and> \<not> hasPassed c (ts ! i) \<and> (\<forall>j<i. hasPassed c (ts ! j))"
proof (induction ts arbitrary: k)
  case Nil
  then show ?case by simp
next
  case (Cons t ts)
  show ?case
  proof (cases "hasPassed c t")
    case False
    with Cons.prems have "n = k" by (simp add: passed_queued)
    with False show ?thesis by (intro exI [of _ 0]) simp
  next
    case True
    with Cons.prems have "find_not_passed (Some c) (map queued ts) (Suc k) = Inr (Some n)"
      by (simp add: passed_queued)
    from Cons.IH [OF this] obtain i where i: "i < length ts" "n = Suc k + i"
      "\<not> hasPassed c (ts ! i)" "\<forall>j<i. hasPassed c (ts ! j)" by blast
    have "\<forall>j<Suc i. hasPassed c ((t # ts) ! j)"
      using True i(4) by (auto simp: nth_Cons split: nat.splits)
    with i show ?thesis by (intro exI [of _ "Suc i"]) simp
  qed
qed

lemma find_not_passed_None:
  "find_not_passed (Some c) (map queued ts) k = Inr None \<Longrightarrow>
   \<forall>j<length ts. hasPassed c (ts ! j)"
proof (induction ts arbitrary: k)
  case Nil
  then show ?case by simp
next
  case (Cons t ts)
  from Cons.prems have t: "hasPassed c t"
    by (cases "hasPassed c t") (simp_all add: passed_queued)
  with Cons.prems have "find_not_passed (Some c) (map queued ts) (Suc k) = Inr None"
    by (simp add: passed_queued)
  from Cons.IH [OF this] t show ?case
    by (auto simp: nth_Cons split: nat.splits)
qed

text \<open>
  C1. For every segment cell and every non-empty queue of turn commands, the selection
  \<open>instructions.find((it) => !passed(segment, it)) || instructions[0]\<close> returns a queue
  entry: the first one (oldest first) that the segment has not passed, and the entry at
  index 0 when the segment has passed them all.
\<close>

theorem selectInstruction_first_not_passed:
  assumes "turns \<noteq> []"
  shows "\<exists>i<length turns.
           selectInstruction (Some segment) (map queued turns) = Inr (Some i)
           \<and> ((\<not> hasPassed segment (turns ! i) \<and> (\<forall>j<i. hasPassed segment (turns ! j)))
              \<or> ((\<forall>j<length turns. hasPassed segment (turns ! j)) \<and> i = 0))"
proof -
  obtain r where r: "find_not_passed (Some segment) (map queued turns) 0 = Inr r"
    using find_not_passed_total by blast
  show ?thesis
  proof (cases r)
    case None
    with r have "\<forall>j<length turns. hasPassed segment (turns ! j)"
      using find_not_passed_None by blast
    moreover have "selectInstruction (Some segment) (map queued turns) = Inr (Some 0)"
      using r None assms by (simp add: selectInstruction_def)
    ultimately show ?thesis using assms by (intro exI [of _ 0]) simp
  next
    case (Some n)
    with r obtain i where i: "i < length turns" "n = i" "\<not> hasPassed segment (turns ! i)"
      "\<forall>j<i. hasPassed segment (turns ! j)"
      using find_not_passed_Some [of segment turns 0 n] by auto
    moreover have "selectInstruction (Some segment) (map queued turns) = Inr (Some n)"
      using r Some by (simp add: selectInstruction_def)
    ultimately show ?thesis by (intro exI [of _ i]) simp
  qed
qed

theorem selectInstruction_first_not_passed_witness:
  "selectInstruction (Some (61, 50)) (map queued [(Right, (50, 50)), (Up, (61, 50)), (Left, (61, 50))])
     = Inr (Some 1)
   \<and> selectInstruction (Some (61, 52)) (map queued [(Right, (50, 50)), (Up, (61, 50))])
     = Inr (Some 0)"
  using selectInstruction_first_not_passed [of "[(Right, (50, 50)), (Up, (61, 50)), (Left, (61, 50))]" "(61, 50)"]
    selectInstruction_first_not_passed [of "[(Right, (50, 50)), (Up, (61, 50))]" "(61, 52)"]
  by (simp add: selectInstruction_def queued_def passed_def)

subsection \<open>Ids stand for their coordinates\<close>

lemma of_char_digit: "d < 10 \<Longrightarrow> (of_char (digit d) :: nat) = 48 + d"
  by (simp add: digit_def)

lemma digit_not_delimiter: "d < 10 \<Longrightarrow> digit d \<noteq> DELIMITER"
proof
  assume d: "d < 10" and eq: "digit d = DELIMITER"
  have "(of_char (digit d) :: nat) = of_char DELIMITER" using eq by simp
  then show False using d by (simp add: of_char_digit DELIMITER_def)
qed

lemma digit_not_minus: "d < 10 \<Longrightarrow> digit d \<noteq> CHR ''-''"
proof
  assume d: "d < 10" and eq: "digit d = CHR ''-''"
  have "(of_char (digit d) :: nat) = of_char (CHR ''-'')" using eq by simp
  then show False using d by (simp add: of_char_digit)
qed

lemma ToString_nat_no_delimiter: "DELIMITER \<notin> set (ToString_nat n)"
proof (induction n rule: ToString_nat.induct)
  case (1 n)
  show ?case
  proof (cases "n < 10")
    case True
    then show ?thesis using digit_not_delimiter [of n] by (subst ToString_nat.simps) auto
  next
    case False
    have "digit (n mod 10) \<noteq> DELIMITER" by (rule digit_not_delimiter) simp
    with False 1 show ?thesis by (subst ToString_nat.simps) auto
  qed
qed

lemma ToString_nat_not_Nil: "ToString_nat n \<noteq> []"
  by (subst ToString_nat.simps) simp

lemma hd_ToString_nat: "hd (ToString_nat n) \<noteq> CHR ''-''"
proof (induction n rule: ToString_nat.induct)
  case (1 n)
  show ?case
  proof (cases "n < 10")
    case True
    then show ?thesis using digit_not_minus [of n] by (subst ToString_nat.simps) auto
  next
    case False
    with 1 show ?thesis
      by (subst ToString_nat.simps) (simp add: ToString_nat_not_Nil)
  qed
qed

lemma digits_value_snoc: "digits_value (s @ [c]) = 10 * digits_value s + (of_char c - 48)"
  by (simp add: digits_value_def)

lemma digits_value_ToString_nat: "digits_value (ToString_nat n) = n"
proof (induction n rule: ToString_nat.induct)
  case (1 n)
  show ?case
  proof (cases "n < 10")
    case True
    then show ?thesis by (subst ToString_nat.simps) (simp add: digits_value_def of_char_digit)
  next
    case False
    have "digits_value (ToString_nat n) =
            10 * digits_value (ToString_nat (n div 10)) + (of_char (digit (n mod 10)) - 48)"
      using False by (subst ToString_nat.simps) (simp add: digits_value_snoc)
    also have "\<dots> = 10 * (n div 10) + n mod 10"
      using False 1 by (simp add: of_char_digit)
    finally show ?thesis by simp
  qed
qed

lemma Number_ToString_nat: "Number (ToString_nat n) = int n"
  using hd_ToString_nat [of n] by (simp add: Number_def digits_value_ToString_nat)

lemma Number_ToString: "Number (ToString i) = i"
  by (cases "i < 0") (simp_all add: ToString_def Number_ToString_nat, simp add: Number_def digits_value_ToString_nat)

lemma ToString_no_delimiter: "DELIMITER \<notin> set (ToString i)"
  by (simp add: ToString_def ToString_nat_no_delimiter) (simp add: DELIMITER_def)

lemma String_split_no_delimiter: "d \<notin> set s \<Longrightarrow> String_split s d = [s]"
  by (induction s) auto

lemma String_split_at_delimiter: "d \<notin> set a \<Longrightarrow> String_split (a @ d # b) d = a # String_split b d"
  by (induction a) auto

lemma toCoord_toId: "toCoord (Some (toId c)) = Some c"
proof -
  have "String_split (toId c) DELIMITER = [ToString (fst c), ToString (snd c)]"
    by (simp add: toId_def String_split_at_delimiter String_split_no_delimiter ToString_no_delimiter)
  then show ?thesis by (simp add: Number_ToString)
qed

subsection \<open>The first tick\<close>

lemma extend_0: "extend cv h next 0 = next"
  by (simp add: extend_def at_index_def)

lemma extend_Suc:
  "length next = Suc n \<Longrightarrow>
   extend cv h next (Suc n) = next @ [nextCoords cv h (Left, Some (next ! n))]"
  by (simp add: extend_def at_index_def)

lemma initial_cells:
  "length (foldl (extend cv h) [h] [0..<Suc n]) = Suc n
   \<and> foldl (extend cv h) [h] [0..<Suc n] ! 0 = h
   \<and> (\<forall>i. Suc i < Suc n \<longrightarrow>
        foldl (extend cv h) [h] [0..<Suc n] ! Suc i =
          nextCoords cv h (Left, Some (foldl (extend cv h) [h] [0..<Suc n] ! i)))"
proof (induction n)
  case 0
  show ?case by (simp add: extend_0)
next
  case (Suc n)
  define cells where "cells = foldl (extend cv h) [h] [0..<Suc n]"
  have len: "length cells = Suc n" and hd: "cells ! 0 = h"
    and adj: "\<And>i. Suc i < Suc n \<Longrightarrow> cells ! Suc i = nextCoords cv h (Left, Some (cells ! i))"
    using Suc.IH by (simp_all add: cells_def)
  have snoc: "foldl (extend cv h) [h] [0..<Suc (Suc n)] =
                cells @ [nextCoords cv h (Left, Some (cells ! n))]"
    using extend_Suc [OF len] by (simp add: cells_def)
  have "(cells @ [nextCoords cv h (Left, Some (cells ! n))]) ! Suc i =
          nextCoords cv h (Left, Some ((cells @ [nextCoords cv h (Left, Some (cells ! n))]) ! i))"
    if "Suc i < Suc (Suc n)" for i
  proof (cases "i = n")
    case True
    then show ?thesis using len by (simp add: nth_append)
  next
    case False
    with that have "Suc i < Suc n" by simp
    then show ?thesis using len adj [of i] by (simp add: nth_append)
  qed
  then show ?case unfolding snoc using len hd by (simp add: nth_append)
qed

lemma cells_map_toId: "cells (map toId cs) = map Some cs"
  by (induction cs) (simp_all add: cells_def toCoord_toId del: toCoord.simps)

lemma gameLoop_first:
  assumes "prevSquares st = None" and "nextSquares st = None"
  shows "snd (gameLoop cv st) = None"
    and "nextSquares (fst (gameLoop cv st)) = Some (initialSquares cv st)"
    and "instructions (fst (gameLoop cv st)) = instructions st"
  using assms
  by (simp_all add: gameLoop_def setTimeout_def clearTimeout_def Let_def split: option.splits)

text \<open>
  C6. For every segment count \<open>n \<ge> 1\<close> and every head cell, the tick that finds no squares
  (neither \<open>prevSquares\<close> nor \<open>nextSquares\<close>) returns normally and leaves in
  \<open>nextSquares\<close> a body of exactly \<open>n\<close> cells: the head at index 0, and every later
  cell one \<open>nextCoords\<close> step in direction Left (wrap included) from the cell before it.
\<close>

theorem first_tick_lays_out_body:
  assumes "prevSquares st = None" and "nextSquares st = None" and "1 \<le> segments st"
  shows "\<exists>body. nextSquares (fst (gameLoop cv st)) = Some body
           \<and> snd (gameLoop cv st) = None
           \<and> length body = segments st
           \<and> cells body ! 0 = Some (head st)
           \<and> (\<forall>i. Suc i < segments st \<longrightarrow>
                cells body ! Suc i = Some (nextCoords cv (head st) (Left, cells body ! i)))"
proof -
  obtain n where n: "segments st = Suc n"
    using assms(3) by (cases "segments st") auto
  define cs where "cs = foldl (extend cv (head st)) [head st] [0..<Suc n]"
  have len: "length cs = Suc n" and hd: "cs ! 0 = head st"
    and adj: "\<And>i. Suc i < Suc n \<Longrightarrow> cs ! Suc i = nextCoords cv (head st) (Left, Some (cs ! i))"
    using initial_cells [of cv "head st" n] by (simp_all add: cs_def)
  have body: "initialSquares cv st = map toId cs"
    by (simp add: initialSquares_def n cs_def)
  have "cells (map toId cs) ! Suc i = Some (nextCoords cv (head st) (Left, cells (map toId cs) ! i))"
    if "Suc i < segments st" for i
    using that len adj [of i] by (simp add: cells_map_toId n)
  moreover have "cells (map toId cs) ! 0 = Some (head st)"
    using len hd by (simp add: cells_map_toId)
  ultimately show ?thesis
    using gameLoop_first [OF assms(1,2), of cv] len by (simp add: body n)
qed


theorem first_tick_lays_out_body_witness:
  "\<exists>body. nextSquares (fst (gameLoop \<lparr>clientWidth = 100, clientHeight = 100\<rparr>
              (init \<lparr>clientWidth = 100, clientHeight = 100\<rparr>))) = Some body
     \<and> length body = 5 \<and> cells body ! 0 = Some (50, 50)"
  using first_tick_lays_out_body [of "init \<lparr>clientWidth = 100, clientHeight = 100\<rparr>"
      "\<lparr>clientWidth = 100, clientHeight = 100\<rparr>"]
  by (auto simp: init_def width_def height_def Let_def)

lemma draw_no_squares:
  assumes "prevSquares st = None" and "nextSquares st = None"
  shows "prevSquares (draw st) = None" and "nextSquares (draw st) = None"
    and "instructions (draw st) = instructions st"
  using assms
  by (simp_all add: draw_def requestAnimationFrame_def cancelAnimationFrame_def Let_def
      split: option.splits)

text \<open>
  C10. The tick that finds no squares leaves the queue of instructions exactly as it was:
  it selects, marks and prunes nothing, and throws nothing. So does the \<open>Enter\<close> key
  press that starts play from a state without squares, which runs that tick: whatever was
  queued before is still queued, in the same order, when the body has been laid out.
\<close>

theorem first_tick_keeps_queue:
  assumes "prevSquares st = None" and "nextSquares st = None"
  shows "instructions (fst (gameLoop cv st)) = instructions st
         \<and> snd (gameLoop cv st) = None
         \<and> (\<not> playing st \<longrightarrow>
              instructions (fst (handleKeyEvents cv st ''Enter'')) = instructions st
              \<and> snd (handleKeyEvents cv st ''Enter'') = None
              \<and> nextSquares (fst (handleKeyEvents cv st ''Enter'')) \<noteq> None)"
proof -
  let ?st = "st\<lparr>playing := True\<rparr>"
  have p: "prevSquares ?st = None" "nextSquares ?st = None"
    using assms by simp_all
  have d: "prevSquares (draw ?st) = None" "nextSquares (draw ?st) = None"
    "instructions (draw ?st) = instructions st"
    using draw_no_squares [OF p] by simp_all
  have "instructions (fst (gameLoop cv (draw ?st))) = instructions st"
    "snd (gameLoop cv (draw ?st)) = None"
    "nextSquares (fst (gameLoop cv (draw ?st))) \<noteq> None"
    using gameLoop_first [OF d(1,2), of cv] d(3) by simp_all
  then show ?thesis
    using gameLoop_first [OF assms, of cv] by (simp add: handleKeyEvents_def)
qed

theorem first_tick_keeps_queue_witness:
  "instructions (fst (handleKeyEvents \<lparr>clientWidth = 100, clientHeight = 100\<rparr>
      (run \<lparr>clientWidth = 100, clientHeight = 100\<rparr> [keydown ''ArrowUp'', keydown ''ArrowLeft'']
         (init \<lparr>clientWidth = 100, clientHeight = 100\<rparr>)) ''Enter''))
   = [(Right, Some (50, 50)), (Up, None), (Left, None)]"
  using first_tick_keeps_queue [of "run \<lparr>clientWidth = 100, clientHeight = 100\<rparr>
      [keydown ''ArrowUp'', keydown ''ArrowLeft''] (init \<lparr>clientWidth = 100, clientHeight = 100\<rparr>)"
      "\<lparr>clientWidth = 100, clientHeight = 100\<rparr>"]
  by (simp add: init_def dispatch_def handleKeyEvents_def squares_def push_def width_def height_def Let_def)

subsection \<open>The oldest instruction stays\<close>

lemma removeUnusedInstructions_keeps_first:
  "its \<noteq> [] \<Longrightarrow> \<exists>rest. removeUnusedInstructions a len k its = hd its # rest"
proof (induction a len k its rule: removeUnusedInstructions.induct)
  case (1 a len k its)
  show ?case
  proof (cases "k < len")
    case False
    with "1.prems" show ?thesis
      by (subst removeUnusedInstructions.simps) (cases its; simp)
  next
    case k: True
    show ?thesis
    proof (cases "k < length its \<and> fst (its ! k) \<notin> a \<and> k \<noteq> 0")
      case False
      then have "removeUnusedInstructions a len k its = removeUnusedInstructions a len (Suc k) its"
        using k by (subst removeUnusedInstructions.simps) auto
      moreover have "\<exists>rest. removeUnusedInstructions a len (Suc k) its = hd its # rest"
        using False k "1.IH"(1,2,4) "1.prems" by blast
      ultimately show ?thesis by simp
    next
      case True
      let ?its = "take k its @ drop (Suc k) its"
      have ne: "?its \<noteq> []" and hd: "hd ?its = hd its"
        using True "1.prems" by (cases its; cases k; simp)+
      have "removeUnusedInstructions a len k its = removeUnusedInstructions a len (Suc k) ?its"
        using k True by (subst removeUnusedInstructions.simps) auto
      moreover have "\<exists>rest. removeUnusedInstructions a len (Suc k) ?its = hd ?its # rest"
        using "1.IH"(3) k True ne by blast
      ultimately show ?thesis using hd by simp
    qed
  qed
qed

lemma prune_keeps_first: "\<exists>rest. prune a (it # its) = it # rest"
proof -
  have z: "zip [0..<length (it # its)] (it # its) = (0, it) # zip [1..<Suc (length its)] its"
    by (simp add: upt_conv_Cons del: upt_Suc)
  obtain rest where "removeUnusedInstructions a (length (it # its)) 0 (zip [0..<length (it # its)] (it # its))
      = (0, it) # rest"
    using removeUnusedInstructions_keeps_first [of "zip [0..<length (it # its)] (it # its)" a "length (it # its)" 0]
    unfolding z by auto
  then show ?thesis by (simp add: prune_def del: upt_Suc)
qed

lemma draw_instructions: "instructions (draw st) = instructions st"
  by (simp add: draw_def requestAnimationFrame_def cancelAnimationFrame_def Let_def
      split: option.splits)

lemma gameLoop_keeps_first:
  assumes "instructions st = it # its"
  shows "\<exists>rest. instructions (fst (gameLoop cv st)) = it # rest"
proof (cases "prevSquares st = None \<and> nextSquares st = None")
  case True
  then show ?thesis using assms
    by (simp add: gameLoop_def setTimeout_def clearTimeout_def Let_def split: option.splits)
next
  case False
  obtain thrown applied ids where m: "moveSegments cv st 0 {} [] = (thrown, applied, ids)"
    by (cases "moveSegments cv st 0 {} []") auto
  obtain rest where "prune applied (it # its) = it # rest"
    using prune_keeps_first by blast
  then show ?thesis using False assms m
    by (cases thrown)
      (auto simp: gameLoop_def setTimeout_def clearTimeout_def Let_def split: option.splits)
qed

lemma handleKeyEvents_keeps_first:
  assumes "instructions st = it # its"
  shows "\<exists>rest. instructions (fst (handleKeyEvents cv st key)) = it # rest"
proof (cases "key = ''Enter'' \<and> \<not> playing st")
  case True
  have "instructions (draw (st\<lparr>playing := True\<rparr>)) = it # its"
    using assms by (simp add: draw_instructions)
  from gameLoop_keeps_first [OF this] True show ?thesis
    by (simp add: handleKeyEvents_def)
next
  case False
  then show ?thesis using assms
    by (auto simp: handleKeyEvents_def push_def Let_def)
qed

lemma dispatch_keeps_first:
  assumes "instructions st = it # its"
  shows "\<exists>rest. instructions (fst (dispatch cv ev st)) = it # rest"
proof (cases ev)
  case (keydown key)
  then show ?thesis using handleKeyEvents_keeps_first [OF assms] by (simp add: dispatch_def)
next
  case (timeout h)
  have "instructions (st\<lparr>timeouts := removeAll h (timeouts st)\<rparr>) = it # its"
    using assms by simp
  from gameLoop_keeps_first [OF this] timeout assms show ?thesis
    by (simp add: dispatch_def)
next
  case (animationFrame h)
  then show ?thesis using assms by (simp add: dispatch_def draw_instructions)
qed

lemma reachable_first_instruction:
  "reachable cv st \<Longrightarrow> \<exists>rest. instructions st = (Right, Some (head (init cv))) # rest"
proof (induction rule: reachable.induct)
  case start
  show ?case by (simp add: init_def Let_def)
next
  case (step st ev)
  then obtain rest where "instructions st = (Right, Some (head (init cv))) # rest" by blast
  from dispatch_keeps_first [OF this] show ?case .
qed

text \<open>
  C5. In every state the program can reach, after any number of key presses, ticks and
  redraws, the queue is not empty and its entry at index 0 is the instruction the module
  started with. Whatever set of applied instructions a tick has collected, pruning leaves
  the entry at index 0 at index 0; and no callback at all removes or replaces it.
\<close>

theorem index_0_is_never_pruned:
  assumes "reachable cv st"
  shows "instructions st \<noteq> []
         \<and> hd (instructions st) = (Right, Some (head (init cv)))
         \<and> (\<forall>appliedInstructions.
               prune appliedInstructions (instructions st) \<noteq> []
               \<and> hd (prune appliedInstructions (instructions st)) = hd (instructions st))
         \<and> (\<forall>ev. instructions (fst (dispatch cv ev st)) \<noteq> []
               \<and> hd (instructions (fst (dispatch cv ev st))) = hd (instructions st))"
proof -
  obtain rest where i: "instructions st = (Right, Some (head (init cv))) # rest"
    using reachable_first_instruction [OF assms] by blast
  have "prune a (instructions st) \<noteq> [] \<and> hd (prune a (instructions st)) = hd (instructions st)" for a
    using prune_keeps_first [of a "(Right, Some (head (init cv)))" rest] i by auto
  moreover have "instructions (fst (dispatch cv ev st)) \<noteq> []
      \<and> hd (instructions (fst (dispatch cv ev st))) = hd (instructions st)" for ev
    using dispatch_keeps_first [OF i, of cv ev] i by auto
  ultimately show ?thesis using i by simp
qed


lemma reachable_run: "reachable cv st \<Longrightarrow> reachable cv (run cv evs st)"
  by (induction evs arbitrary: st) (simp_all add: reachable.step)

theorem index_0_is_never_pruned_witness:
  "hd (instructions (run \<lparr>clientWidth = 100, clientHeight = 100\<rparr>
        [keydown ''Enter'', animationFrame 0, timeout 1, animationFrame 2,
         keydown ''ArrowUp'', keydown ''ArrowLeft'', timeout 3]
        (init \<lparr>clientWidth = 100, clientHeight = 100\<rparr>)))
   = (Right, Some (50, 50))"
  using index_0_is_never_pruned [OF reachable_run [OF reachable.start],
    of "\<lparr>clientWidth = 100, clientHeight = 100\<rparr>"
      "[keydown ''Enter'', animationFrame 0, timeout 1, animationFrame 2,
        keydown ''ArrowUp'', keydown ''ArrowLeft'', timeout 3]"]
  by (simp add: init_def Let_def width_def height_def)


subsection \<open>Walking in one direction\<close>

lemma le_div_iff_mult_le:
  fixes r :: int
  assumes "0 < r"
  shows "k \<le> E div r \<longleftrightarrow> k * r \<le> E"
proof
  assume "k \<le> E div r"
  then have "k * r \<le> (E div r) * r" using assms by (simp add: mult_right_mono)
  also have "\<dots> \<le> E" using assms
    by (metis mult.commute pos_mod_sign add.commute le_add_same_cancel2 mult_div_mod_eq)
  finally show "k * r \<le> E" .
next
  assume "k * r \<le> E"
  then have "(k * r) div r \<le> E div r" using assms by (rule zdiv_mono1)
  then show "k \<le> E div r" using assms by simp
qed

lemma forward_grid:
  assumes "0 < r" and "0 \<le> b" and "b < E div r"
  shows "forward E r (b * r) = ((b + 1) mod (E div r)) * r"
proof (cases "b + 2 \<le> E div r")
  case True
  then have "(b + 2) * r \<le> E" using le_div_iff_mult_le [OF assms(1)] by blast
  then have "\<not> b * r + r > E - r" by (simp add: algebra_simps)
  moreover have "(b + 1) mod (E div r) = b + 1" using True assms(2) by simp
  ultimately show ?thesis by (simp add: forward_def algebra_simps)
next
  case False
  then have "\<not> (b + 2) * r \<le> E" using le_div_iff_mult_le [OF assms(1)] by blast
  then have "b * r + r > E - r" by (simp add: algebra_simps)
  moreover have "b + 1 = E div r" using False assms(3) by simp
  ultimately show ?thesis by (simp add: forward_def)
qed

lemma forward_funpow:
  assumes "0 < r" and "0 \<le> a" and "a < E div r"
  shows "(forward E r ^^ k) (a * r) = ((a + int k) mod (E div r)) * r"
proof (induction k)
  case 0
  show ?case using assms by simp
next
  case (Suc k)
  let ?N = "E div r"
  have N: "0 < ?N" using assms by simp
  have b: "0 \<le> (a + int k) mod ?N" "(a + int k) mod ?N < ?N" using N by simp_all
  have "(forward E r ^^ Suc k) (a * r) = forward E r (((a + int k) mod ?N) * r)"
    using Suc by simp
  also have "\<dots> = (((a + int k) mod ?N + 1) mod ?N) * r"
    using forward_grid [OF assms(1) b] .
  also have "((a + int k) mod ?N + 1) mod ?N = (a + int (Suc k)) mod ?N"
    by (simp add: mod_simps add_ac)
  finally show ?case .
qed

lemma forward_cycle:
  assumes "0 < r" and "0 \<le> x" and "x \<le> E - r" and "r dvd x"
  shows "(forward E r ^^ nat (E div r)) x = x"
proof -
  obtain a where a: "x = a * r" using assms(4) by (auto simp: dvd_def mult.commute)
  have a0: "0 \<le> a" using assms(1,2) a by (simp add: zero_le_mult_iff)
  have "(a + 1) * r \<le> E" using assms(3) a by (simp add: algebra_simps)
  then have aN: "a + 1 \<le> E div r" using le_div_iff_mult_le [OF assms(1)] by blast
  then have "a < E div r" by simp
  from forward_funpow [OF assms(1) a0 this, of "nat (E div r)"] a0 aN
  show ?thesis by (simp add: a)
qed

lemma backward_mirror:
  "backward E r x = E - r - forward E r (E - r - x)"
  by (simp add: backward_def forward_def)

lemma backward_funpow_mirror:
  "(backward E r ^^ k) x = E - r - (forward E r ^^ k) (E - r - x)"
  by (induction k) (simp_all add: backward_mirror)

lemma backward_cycle:
  assumes "0 < r" and "0 \<le> x" and "x \<le> E - r" and "r dvd E - x"
  shows "(backward E r ^^ nat (E div r)) x = x"
proof -
  have "r dvd E - r - x" using assms(4) by (metis diff_right_commute dvd_diff dvd_refl)
  from forward_cycle [OF assms(1) _ _ this, of E] assms(2,3)
  show ?thesis by (simp add: backward_funpow_mirror)
qed

lemma constrainToCanvas_inPlayfield:
  "inPlayfield cv cell \<Longrightarrow> constrainToCanvas cv cell = cell"
  by (cases cell) (simp add: inPlayfield_def constrainToCanvas_def Let_def)

lemma step_Right:
  assumes "inPlayfield cv (x, y)"
  shows "step cv Right (x, y) = (forward (width cv) (rectSize cv) x, y)"
    and "inPlayfield cv (step cv Right (x, y))"
  using assms rectSize_pos [of cv]
  by (auto simp: step_def nextCoords_def constrainToCanvas_def forward_def inPlayfield_def Let_def)

lemma step_Up:
  assumes "inPlayfield cv (x, y)"
  shows "step cv Up (x, y) = (x, forward (height cv) (rectSize cv) y)"
    and "inPlayfield cv (step cv Up (x, y))"
  using assms rectSize_pos [of cv]
  by (auto simp: step_def nextCoords_def constrainToCanvas_def forward_def inPlayfield_def Let_def)

lemma step_Left:
  assumes "inPlayfield cv (x, y)"
  shows "step cv Left (x, y) = (backward (width cv) (rectSize cv) x, y)"
    and "inPlayfield cv (step cv Left (x, y))"
  using assms rectSize_pos [of cv]
  by (auto simp: step_def nextCoords_def constrainToCanvas_def backward_def inPlayfield_def Let_def)

lemma step_Down:
  assumes "inPlayfield cv (x, y)"
  shows "step cv Down (x, y) = (x, backward (height cv) (rectSize cv) y)"
    and "inPlayfield cv (step cv Down (x, y))"
  using assms rectSize_pos [of cv]
  by (auto simp: step_def nextCoords_def constrainToCanvas_def backward_def inPlayfield_def Let_def)

lemma step_inPlayfield: "inPlayfield cv cell \<Longrightarrow> inPlayfield cv (step cv d cell)"
  using step_Up(2) step_Right(2) step_Down(2) step_Left(2)
  by (cases cell; cases d) simp_all

lemma step_funpow_inPlayfield:
  "inPlayfield cv cell \<Longrightarrow> inPlayfield cv ((step cv d ^^ k) cell)"
  by (induction k) (simp_all add: step_inPlayfield)

lemma step_funpow:
  assumes "inPlayfield cv (x, y)"
  shows "(step cv d ^^ k) (x, y) =
       (case d of
          Up \<Rightarrow> (x, (forward (height cv) (rectSize cv) ^^ k) y)
        | Right \<Rightarrow> ((forward (width cv) (rectSize cv) ^^ k) x, y)
        | Down \<Rightarrow> (x, (backward (height cv) (rectSize cv) ^^ k) y)
        | Left \<Rightarrow> ((backward (width cv) (rectSize cv) ^^ k) x, y))"
proof (induction k)
  case 0
  show ?case by (cases d) simp_all
next
  case (Suc k)
  obtain x' y' where c: "(step cv d ^^ k) (x, y) = (x', y')"
    by (cases "(step cv d ^^ k) (x, y)") auto
  have i: "inPlayfield cv (x', y')"
    using step_funpow_inPlayfield [OF assms, where d = d and k = k] c by simp
  have s: "(step cv d ^^ Suc k) (x, y) = step cv d (x', y')"
    using c by simp
  show ?case
  proof (cases d)
    case Up
    with Suc c show ?thesis unfolding s by (simp add: step_Up(1) [OF i])
  next
    case Right
    with Suc c show ?thesis unfolding s by (simp add: step_Right(1) [OF i])
  next
    case Down
    with Suc c show ?thesis unfolding s by (simp add: step_Down(1) [OF i])
  next
    case Left
    with Suc c show ?thesis unfolding s by (simp add: step_Left(1) [OF i])
  qed
qed

text \<open>
  C9, as amended. For every direction and every cell that lies in the playfield and on the
  direction's track, \<open>edge div rectSize\<close> steps in that direction lead back to the cell.
\<close>

theorem step_cycles_on_its_track:
  assumes "inPlayfield cv cell" and "onTrack cv d cell"
  shows "(step cv d ^^ nat (edge cv d div rectSize cv)) cell = cell"
proof -
  obtain x y where c: "cell = (x, y)" by (cases cell) auto
  have p: "inPlayfield cv (x, y)" using assms(1) c by simp
  have r: "0 < rectSize cv" by (rule rectSize_pos)
  have x: "0 \<le> x" "x \<le> width cv - rectSize cv" and y: "0 \<le> y" "y \<le> height cv - rectSize cv"
    using p by (simp_all add: inPlayfield_def)
  show ?thesis
  proof (cases d)
    case Up
    then have "rectSize cv dvd y" using assms(2) c by (simp add: onTrack_def)
    from forward_cycle [OF r y this] Up step_funpow [OF p, where d = d] show ?thesis
      by (simp add: c edge_def)
  next
    case Right
    then have "rectSize cv dvd x" using assms(2) c by (simp add: onTrack_def)
    from forward_cycle [OF r x this] Right step_funpow [OF p, where d = d] show ?thesis
      by (simp add: c edge_def)
  next
    case Down
    then have "rectSize cv dvd height cv - y" using assms(2) c by (simp add: onTrack_def)
    from backward_cycle [OF r y this] Down step_funpow [OF p, where d = d] show ?thesis
      by (simp add: c edge_def)
  next
    case Left
    then have "rectSize cv dvd width cv - x" using assms(2) c by (simp add: onTrack_def)
    from backward_cycle [OF r x this] Left step_funpow [OF p, where d = d] show ?thesis
      by (simp add: c edge_def)
  qed
qed

theorem step_cycles_on_its_track_witness:
  "(step \<lparr>clientWidth = 100, clientHeight = 100\<rparr> Right ^^ 9) (22, 50) = (22, 50)
   \<and> (step \<lparr>clientWidth = 100, clientHeight = 100\<rparr> Left ^^ 9) (23, 50) = (23, 50)"
  using step_cycles_on_its_track [of "\<lparr>clientWidth = 100, clientHeight = 100\<rparr>" "(22, 50)" Right]
    step_cycles_on_its_track [of "\<lparr>clientWidth = 100, clientHeight = 100\<rparr>" "(23, 50)" Left]
  by (simp add: inPlayfield_def onTrack_def edge_def rectSize_def rect_size_def rect_spacing_def
      smaller_def width_def height_def)

text \<open>
  C9 as stated fails for cells off the track. On a canvas of 10 by 10 the stride is 2 and
  the program's own start cell is (5, 5); five steps to the right lead through 7, 0, 2
  and 4 to x = 6.
\<close>

theorem step_cycle_counterexample:
  "(step \<lparr>clientWidth = 10, clientHeight = 10\<rparr> Right
      ^^ nat (edge \<lparr>clientWidth = 10, clientHeight = 10\<rparr> Right
              div rectSize \<lparr>clientWidth = 10, clientHeight = 10\<rparr>)) (5, 5) \<noteq> (5, 5)"
  by code_simp


subsection \<open>Where the program departs from the specification\<close>

text \<open>
  C4 does not hold of the code. \<open>removeUnusedInstructions\<close> splices the array that
  \<open>forEach\<close> is walking, so the entry after a removed one moves into the index just
  visited and is never asked about. With three arrow keys pressed between two ticks, the
  head selects the first of them (index 1), the other segments select index 0, and of the
  two unselected entries only the one at index 2 is removed.
\<close>

theorem prune_skips_entry_after_removed_one:
  "prune {0} [(Right, Some (50, 50)), (Up, Some (61, 50)), (Left, Some (61, 50))]
     = [(Right, Some (50, 50)), (Left, Some (61, 50))]
   \<and> instructions (run \<lparr>clientWidth = 100, clientHeight = 100\<rparr>
        [keydown ''Enter'', animationFrame 0, timeout 1, animationFrame 2,
         keydown ''ArrowUp'', keydown ''ArrowLeft'', keydown ''ArrowDown''] 
        (init \<lparr>clientWidth = 100, clientHeight = 100\<rparr>))
     = [(Right, Some (50, 50)), (Up, Some (61, 50)), (Left, Some (61, 50)), (Down, Some (61, 50))]
   \<and> moveSegments \<lparr>clientWidth = 100, clientHeight = 100\<rparr>
        (run \<lparr>clientWidth = 100, clientHeight = 100\<rparr>
          [keydown ''Enter'', animationFrame 0, timeout 1, animationFrame 2,
           keydown ''ArrowUp'', keydown ''ArrowLeft'', keydown ''ArrowDown'']
          (init \<lparr>clientWidth = 100, clientHeight = 100\<rparr>)) 0 {} []
     = (None, {0, 1}, [''61,61'', ''61,50'', ''50,50'', ''39,50'', ''28,50''])
   \<and> instructions (run \<lparr>clientWidth = 100, clientHeight = 100\<rparr>
        [keydown ''Enter'', animationFrame 0, timeout 1, animationFrame 2,
         keydown ''ArrowUp'', keydown ''ArrowLeft'', keydown ''ArrowDown'', timeout 3]
        (init \<lparr>clientWidth = 100, clientHeight = 100\<rparr>))
     = [(Right, Some (50, 50)), (Up, Some (61, 50)), (Down, Some (61, 50))]"
  by code_simp

text \<open>
  C7 does not hold of the code. \<open>Escape\<close> only clears \<open>playing\<close>; the timeout that is
  pending stays pending. When it fires, \<open>gameLoop\<close> moves every segment first and looks
  at \<open>playing\<close> afterwards, where \<open>clearTimeout(gameLoopId)\<close> clears a timeout that has
  already fired. The body changes once more after the stop; nothing is scheduled then.
\<close>

theorem stopped_game_still_ticks:
  "playing (run \<lparr>clientWidth = 100, clientHeight = 100\<rparr>
      [keydown ''Enter'', animationFrame 0, keydown ''Escape'']
      (init \<lparr>clientWidth = 100, clientHeight = 100\<rparr>)) = False
   \<and> timeouts (run \<lparr>clientWidth = 100, clientHeight = 100\<rparr>
      [keydown ''Enter'', animationFrame 0, keydown ''Escape'']
      (init \<lparr>clientWidth = 100, clientHeight = 100\<rparr>)) = [1]
   \<and> squares (run \<lparr>clientWidth = 100, clientHeight = 100\<rparr>
      [keydown ''Enter'', animationFrame 0, keydown ''Escape'']
      (init \<lparr>clientWidth = 100, clientHeight = 100\<rparr>))
     = Some [''50,50'', ''39,50'', ''28,50'', ''17,50'', ''6,50'']
   \<and> squares (run \<lparr>clientWidth = 100, clientHeight = 100\<rparr>
      [keydown ''Enter'', animationFrame 0, keydown ''Escape'', timeout 1]
      (init \<lparr>clientWidth = 100, clientHeight = 100\<rparr>))
     = Some [''61,50'', ''50,50'', ''39,50'', ''28,50'', ''17,50'']
   \<and> timeouts (run \<lparr>clientWidth = 100, clientHeight = 100\<rparr>
      [keydown ''Enter'', animationFrame 0, keydown ''Escape'', timeout 1]
      (init \<lparr>clientWidth = 100, clientHeight = 100\<rparr>)) = []"
  by code_simp

text \<open>
  C8 does not hold of the code. An arrow key pressed before any square exists is queued
  with an \<open>undefined\<close> coordinate, and \<open>passed\<close> throws a TypeError as soon as a
  segment that has passed the older entries reaches it: on a canvas of 100 by 100 after
  two such key presses (the first is pruned, the second is skipped by the pruning), on a
  canvas of 30 by 30 after a single one (the initial body wraps around the left edge, so
  its last segment has passed the first instruction at once).
\<close>

theorem early_turn_is_queued_and_crashes_tick:
  "instructions (run \<lparr>clientWidth = 100, clientHeight = 100\<rparr>
      [keydown ''ArrowUp'', keydown ''ArrowUp'']
      (init \<lparr>clientWidth = 100, clientHeight = 100\<rparr>))
     = [(Right, Some (50, 50)), (Up, None), (Up, None)]
   \<and> snd (dispatch \<lparr>clientWidth = 100, clientHeight = 100\<rparr> (timeout 3)
        (run \<lparr>clientWidth = 100, clientHeight = 100\<rparr>
          [keydown ''ArrowUp'', keydown ''ArrowUp'', keydown ''Enter'',
           animationFrame 0, timeout 1, animationFrame 2]
          (init \<lparr>clientWidth = 100, clientHeight = 100\<rparr>)))
     = Some TypeError
   \<and> instructions (run \<lparr>clientWidth = 30, clientHeight = 30\<rparr>
      [keydown ''ArrowUp'']
      (init \<lparr>clientWidth = 30, clientHeight = 30\<rparr>))
     = [(Right, Some (15, 15)), (Up, None)]
   \<and> snd (dispatch \<lparr>clientWidth = 30, clientHeight = 30\<rparr> (timeout 1)
        (run \<lparr>clientWidth = 30, clientHeight = 30\<rparr>
          [keydown ''ArrowUp'', keydown ''Enter'', animationFrame 0]
          (init \<lparr>clientWidth = 30, clientHeight = 30\<rparr>)))
     = Some TypeError"
  by code_simp

end
